theory Spec2Isabelle
  imports Complex_Main
begin

section \<open>Data model\<close>

text \<open>
  The repository has two Go packages in one file: \<open>metrics\<close> (metric records, tag maps,
  dispatch to the backend, transactions and segments) and \<open>log\<close> (level filter, log
  contexts, the logging verbs). Names of the model are the source's names, qualified by
  the package or by the receiver type where two functions share a name.

  A Go \<open>map[string]interface{}\<close> is an association list with distinct keys. The order of
  the list stands for the order in which \<open>range\<close> happens to visit the entries, which
  the language leaves open. A \<open>nil\<close> map and an empty map are both the empty list: the
  code only reads from maps it did not make itself.

  A \<open>float64\<close> is never computed with, only stored and passed on; it is represented
  by the real number it denotes.
\<close>

datatype 'v Metric =
  Metric (metricType: string) (Name: string) (Value: real) (mtags: "(string \<times> 'v) list")

text \<open>
  The values of type \<open>interface{}\<close>: what a tag holds and what a variadic argument of a
  logging verb can be. \<open>DLogTags\<close> is a value of type \<open>log.Tags\<close>, \<open>DMetricTags\<close> one of
  type \<open>metrics.Tags\<close>, \<open>DMetrics\<close> one of type \<open>metrics.Metrics\<close> (given by the records
  its slice shows at the time of the call), \<open>DError\<close> an \<open>error\<close> made by \<open>fmt.Errorf\<close>
  or \<open>errors.New\<close>, \<open>DSlice\<close> a \<open>[]interface{}\<close>.
\<close>

datatype dyn =
    DNil
  | DBool bool
  | DInt int
  | DFloat real
  | DString string
  | DError string
  | DSlice "dyn list"
  | DLogTags "(string \<times> dyn) list"
  | DMetricTags "(string \<times> dyn) list"
  | DMetrics "dyn Metric list"

type_synonym Tags = "(string \<times> dyn) list"

text \<open>\<open>fmt.Sprintf\<close> belongs to the Go library; the model takes it as a parameter.\<close>

type_synonym sprintf = "string \<Rightarrow> dyn list \<Rightarrow> string"

text \<open>A value of type \<open>error\<close>: \<open>None\<close> is \<open>nil\<close>, \<open>Some msg\<close> an error with that message.\<close>

type_synonym error = "string option"

definition FULL :: string where "FULL = ''F''"
definition SIMPLE :: string where "SIMPLE = ''S''"
definition COMPOUND :: string where "COMPOUND = ''C''"
definition metrics_ERROR :: string where "metrics_ERROR = ''E''"

section \<open>Tag maps\<close>

text \<open>The assignment \<open>m[k] = v\<close>: overwrite the entry of \<open>k\<close>, or add one.\<close>

fun map_assign :: "string \<Rightarrow> dyn \<Rightarrow> Tags \<Rightarrow> Tags" where
  "map_assign k v [] = [(k, v)]"
| "map_assign k v ((k', v') # m) =
     (if k = k' then (k, v) # m else (k', v') # map_assign k v m)"

text \<open>The loop \<open>for k, v := range t { merged[k] = v }\<close>.\<close>

fun range_assign :: "Tags \<Rightarrow> Tags \<Rightarrow> Tags" where
  "range_assign merged [] = merged"
| "range_assign merged ((k, v) # t) = range_assign (map_assign k v merged) t"

text \<open>\<open>func (tags Tags) merge(other Tags) Tags\<close> of package \<open>log\<close>.\<close>

definition log_Tags_merge :: "Tags \<Rightarrow> Tags \<Rightarrow> Tags" where
  "log_Tags_merge tags other =
     (let merged = [];
          merged = range_assign merged tags;
          merged = range_assign merged other
      in merged)"

text \<open>
  \<open>func mergeTags(tags []Tags) Tags\<close> of package \<open>metrics\<close>: a single map is returned as
  it is, anything else is copied into a new map from left to right.
\<close>

definition mergeTags :: "Tags list \<Rightarrow> Tags" where
  "mergeTags tags =
     (if length tags = 1 then hd tags
      else foldl range_assign [] tags)"

text \<open>\<open>func (tags Tags) Merge(other Tags) Tags\<close> of package \<open>metrics\<close>.\<close>

definition metrics_Tags_Merge :: "Tags \<Rightarrow> Tags \<Rightarrow> Tags" where
  "metrics_Tags_Merge tags other = mergeTags [tags, other]"

text \<open>
  \<open>func (tags Tags) asMetricTags() []string\<close>: one \<open>key:value\<close> string for each entry, in
  the order of the iteration.
\<close>

definition asMetricTags :: "sprintf \<Rightarrow> Tags \<Rightarrow> string list" where
  "asMetricTags fmt tags = map (\<lambda>(k, v). fmt ''%v:%v'' [DString k, v]) tags"

text \<open>Reading a map: \<open>m[k]\<close> with the comma-ok form.\<close>

definition lookup :: "Tags \<Rightarrow> string \<Rightarrow> dyn option" where
  "lookup m k = map_of m k"

definition keys :: "Tags \<Rightarrow> string set" where
  "keys m = fst ` set m"

text \<open>A list is a map when no key occurs twice.\<close>

definition is_map :: "Tags \<Rightarrow> bool" where
  "is_map m = distinct (map fst m)"

section \<open>Package metrics: transactions, segments, dispatch\<close>

text \<open>
  What the program does to the outside world is a list of events, in the order of the
  calls: a line printed on the standard output, a call of the metrics backend
  (\<open>godog\<close>), a call on a handle of the tracing backend (\<open>newrelic\<close>). Handles of the
  tracing backend are numbers.
\<close>

datatype event =
    Println string
  | RecordFullMetric string real "string list"
  | RecordSimpleMetric string real "string list"
  | RecordCompoundMetric string real "string list"
  | NrNoticeError nat string
  | NrTransactionEnd nat
  | NrSegmentEnd nat

text \<open>
  \<open>type Transaction struct { nrTrx newrelic.Transaction }\<close> and
  \<open>type Segment struct { nrSeg *newrelic.Segment }\<close>: \<open>None\<close> is the \<open>nil\<close> handle.
\<close>

record Transaction =
  nrTrx :: "nat option"

record Segment =
  nrSeg :: "nat option"

definition Transaction_NoticeError :: "Transaction \<Rightarrow> string \<Rightarrow> event list" where
  "Transaction_NoticeError trx name =
     (case nrTrx trx of None \<Rightarrow> [] | Some h \<Rightarrow> [NrNoticeError h name])"

text \<open>
  \<open>End\<close> reads the handle and calls the backend; it assigns nothing, so the wrapper is
  after the call what it was before.
\<close>

definition Transaction_End :: "Transaction \<Rightarrow> event list" where
  "Transaction_End trx =
     (case nrTrx trx of None \<Rightarrow> [] | Some h \<Rightarrow> [NrTransactionEnd h])"

definition NullSegment :: Segment where
  "NullSegment = \<lparr>nrSeg = None\<rparr>"

definition Segment_End :: "Segment \<Rightarrow> event list" where
  "Segment_End seg =
     (case nrSeg seg of None \<Rightarrow> [] | Some h \<Rightarrow> [NrSegmentEnd h])"

text \<open>
  The variables of the two packages: \<open>Level\<close> and \<open>pushMetrics\<close> of \<open>log\<close>,
  \<open>namePrefix\<close> and \<open>defaultTags\<close> of \<open>metrics\<close>.
\<close>

record globals =
  Level :: int
  pushMetrics :: bool
  namePrefix :: string
  defaultTags :: Tags

text \<open>
  \<open>func PushMetric(metric Metric, trx *Transaction, tags ...Tags) error\<close>. The result
  is the list of backend calls and the returned error.
\<close>

definition PushMetric ::
  "sprintf \<Rightarrow> globals \<Rightarrow> dyn Metric \<Rightarrow> Transaction option \<Rightarrow> Tags list \<Rightarrow> event list \<times> error" where
  "PushMetric fmt g metric trx tags =
     (let name = namePrefix g @ ''.'' @ Name metric;
          strTags = asMetricTags fmt (metrics_Tags_Merge (defaultTags g) (mergeTags tags))
      in if metricType metric = FULL then
           ([RecordFullMetric name (Value metric) strTags], None)
         else if metricType metric = SIMPLE then
           ([RecordSimpleMetric name (Value metric) strTags], None)
         else if metricType metric = COMPOUND then
           ([RecordCompoundMetric name (Value metric) strTags], None)
         else if metricType metric = metrics_ERROR then
           ((case trx of None \<Rightarrow> [] | Some t \<Rightarrow> Transaction_NoticeError t name)
              @ [RecordSimpleMetric name 1 strTags], None)
         else ([], Some (fmt ''Unkown metric type: %s'' [DString (metricType metric)])))"

section \<open>Package log: levels, contexts, verbs\<close>

definition TRACE :: int where "TRACE = - 1"
definition DEBUG :: int where "DEBUG = 0"
definition INFO :: int where "INFO = 1"
definition METRICS :: int where "METRICS = 1"
definition WARN :: int where "WARN = 2"
definition log_ERROR :: int where "log_ERROR = 4"
definition CRITIC :: int where "CRITIC = 4"
definition FATAL :: int where "FATAL = 4"
definition NONE :: int where "NONE = 100"

text \<open>
  \<open>type logContext struct\<close>. The type of the two maps is a parameter: the verbs read a
  context whose maps are given by their contents (\<open>Tags logContext\<close>), the derivations
  of the last section work on references into a store of maps.
\<close>

record 'm logContext =
  transaction :: "Transaction option"
  tags :: 'm
  metricTags :: 'm

definition defaultContext :: "Tags logContext" where
  "defaultContext = \<lparr>transaction = None, tags = [], metricTags = []\<rparr>"

text \<open>
  How a call ends: it returns a value, it panics with a message, or the process exits
  with a status (\<open>os.Exit\<close>). A call is its events together with its end.
\<close>

datatype 'a outcome = Return 'a | Panic string | Exit int

type_synonym 'a io = "event list \<times> 'a outcome"

text \<open>Sequencing: what follows a call runs only when the call returns.\<close>

definition bind_io :: "'a io \<Rightarrow> ('a \<Rightarrow> 'b io) \<Rightarrow> 'b io" where
  "bind_io m k =
     (case m of
        (evs, Return x) \<Rightarrow> (case k x of (evs', r) \<Rightarrow> (evs @ evs', r))
      | (evs, Panic msg) \<Rightarrow> (evs, Panic msg)
      | (evs, Exit c) \<Rightarrow> (evs, Exit c))"

text \<open>\<open>func Log(attrs Tags)\<close>, the emitter: one line, a fragment for each entry.\<close>

definition log_Log :: "sprintf \<Rightarrow> Tags \<Rightarrow> event list" where
  "log_Log fmt attrs =
     [Println (concat (map (\<lambda>(k, v). fmt ''[%s:%+v]'' [DString k, v]) attrs))]"

text \<open>
  The inner loop of \<open>logContext.Log\<close> over the records of a metric list:
  \<open>tags = tags.merge(Tags{value.Name: value.Value})\<close>.
\<close>

fun Log_metric_tags :: "Tags \<Rightarrow> dyn Metric list \<Rightarrow> Tags" where
  "Log_metric_tags tgs [] = tgs"
| "Log_metric_tags tgs (value # vs) =
     Log_metric_tags (log_Tags_merge tgs [(Name value, DFloat (Value value))]) vs"

text \<open>
  The loop of \<open>logContext.Log\<close> over \<open>eventsAndTags\<close>. Its state is the three local
  variables \<open>tags\<close>, \<open>metricTags\<close> and \<open>metric\<close> (here \<open>tgs\<close>, \<open>mtgs\<close>, \<open>metric\<close>). The
  type assertions are tried in the order of the source, and a value of no supported type
  panics with the message on the left.
\<close>

fun Log_classify ::
  "sprintf \<Rightarrow> dyn list \<Rightarrow> Tags \<times> Tags \<times> dyn Metric list \<Rightarrow> string + Tags \<times> Tags \<times> dyn Metric list" where
  "Log_classify fmt [] st = Inr st"
| "Log_classify fmt (eventOrTag # rest) (tgs, mtgs, metric) =
     (case eventOrTag of
        DString event \<Rightarrow>
          Log_classify fmt rest (log_Tags_merge tgs [(''event'', DString event)], mtgs, metric)
      | DLogTags extraTags \<Rightarrow>
          Log_classify fmt rest (log_Tags_merge tgs extraTags, mtgs, metric)
      | DMetrics m \<Rightarrow>
          Log_classify fmt rest (Log_metric_tags tgs m, mtgs, m)
      | DMetricTags mTags \<Rightarrow>
          Log_classify fmt rest (tgs, metrics_Tags_Merge mtgs mTags, metric)
      | _ \<Rightarrow>
          Inl (fmt ''Argument must be of type Tags, Metrics or string: %v'' [eventOrTag]))"

text \<open>
  \<open>logContext.Log\<close>, its loop over the metrics to push (\<open>Log_push\<close>) and
  \<open>logContext.Errorf\<close>, which that loop calls and which calls \<open>Log\<close> again.
\<close>

function
  logContext_Log ::
    "sprintf \<Rightarrow> globals \<Rightarrow> Tags logContext \<Rightarrow> string \<Rightarrow> string \<Rightarrow> dyn list \<Rightarrow> unit io"
and
  Log_push ::
    "sprintf \<Rightarrow> globals \<Rightarrow> Tags logContext \<Rightarrow> Tags \<Rightarrow> dyn Metric list \<Rightarrow> unit io"
and
  logContext_Errorf ::
    "sprintf \<Rightarrow> globals \<Rightarrow> Tags logContext \<Rightarrow> string \<Rightarrow> dyn list \<Rightarrow> error io"
where
  "logContext_Log fmt g context level message eventsAndTags =
     (case Log_classify fmt eventsAndTags ([], metricTags context, []) of
        Inl msg \<Rightarrow> ([], Panic msg)
      | Inr (tags', metricTags', metric) \<Rightarrow>
          bind_io
            (log_Log fmt
               (log_Tags_merge
                  (log_Tags_merge (tags context)
                     [(''level'', DString level), (''message'', DString message)])
                  tags'),
             Return ())
            (\<lambda>_. if pushMetrics g then Log_push fmt g context metricTags' metric
                 else ([], Return ())))"
| "Log_push fmt g context metricTags' [] = ([], Return ())"
| "Log_push fmt g context metricTags' (m # ms) =
     (case PushMetric fmt g m (transaction context) [metricTags'] of
        (evs, None) \<Rightarrow>
          bind_io (evs, Return ()) (\<lambda>_. Log_push fmt g context metricTags' ms)
      | (evs, Some err) \<Rightarrow>
          bind_io (evs, Return ())
            (\<lambda>_. bind_io
                   (logContext_Errorf fmt g context ''Error pushing metric: %s'' [DError err])
                   (\<lambda>_. Log_push fmt g context metricTags' ms)))"
| "logContext_Errorf fmt g context format a =
     (let err = fmt format a
      in bind_io
           (if Level g \<le> log_ERROR
            then logContext_Log fmt g context ''error'' (fmt ''%s'' [DError err]) []
            else ([], Return ()))
           (\<lambda>_. ([], Return (Some err))))"
  by pat_completeness auto
termination
  by (relation "measure (\<lambda>x. case x of
          Inl (fmt, g, context, level, message, eventsAndTags) \<Rightarrow>
            (case Log_classify fmt eventsAndTags ([], metricTags context, []) of
               Inl msg \<Rightarrow> 0
             | Inr (tags', metricTags', metric) \<Rightarrow> 3 * length metric + 2)
        | Inr (Inl (fmt, g, context, metricTags', ms)) \<Rightarrow> 3 * length ms + 1
        | Inr (Inr (fmt, g, context, format, a)) \<Rightarrow> 3)") auto

text \<open>The verbs of a context. Each one compares the threshold with its own level first.\<close>

definition logContext_Error ::
  "sprintf \<Rightarrow> globals \<Rightarrow> Tags logContext \<Rightarrow> dyn \<Rightarrow> dyn list \<Rightarrow> error io" where
  "logContext_Error fmt g context value eventsAndTags =
     (let err = fmt ''%v'' [value]
      in bind_io
           (if Level g \<le> log_ERROR
            then logContext_Log fmt g context ''error'' (fmt ''%s'' [DError err]) eventsAndTags
            else ([], Return ()))
           (\<lambda>_. ([], Return (Some err))))"

definition logContext_Critic ::
  "sprintf \<Rightarrow> globals \<Rightarrow> Tags logContext \<Rightarrow> dyn \<Rightarrow> dyn list \<Rightarrow> error io" where
  "logContext_Critic fmt g context value eventsAndTags =
     (let err = fmt ''%v'' [value]
      in bind_io
           (if Level g \<le> CRITIC
            then logContext_Log fmt g context ''critic'' (fmt ''%s'' [DError err]) eventsAndTags
            else ([], Return ()))
           (\<lambda>_. ([], Return (Some err))))"

text \<open>
  \<open>logContext.Fatalf\<close> hands the format to \<open>Log\<close> as the message and the slice \<open>a\<close>
  as one variadic argument (the source writes \<open>a\<close>, not \<open>a...\<close>), then calls
  \<open>os.Exit(1)\<close>.
\<close>

definition logContext_Fatalf ::
  "sprintf \<Rightarrow> globals \<Rightarrow> Tags logContext \<Rightarrow> string \<Rightarrow> dyn list \<Rightarrow> unit io" where
  "logContext_Fatalf fmt g context format a =
     bind_io
       (if Level g \<le> FATAL
        then logContext_Log fmt g context ''fatal'' format [DSlice a]
        else ([], Return ()))
       (\<lambda>_. ([], Exit 1))"

definition logContext_Info ::
  "sprintf \<Rightarrow> globals \<Rightarrow> Tags logContext \<Rightarrow> dyn \<Rightarrow> dyn list \<Rightarrow> unit io" where
  "logContext_Info fmt g context value eventsAndTags =
     (if Level g > INFO then ([], Return ())
      else logContext_Log fmt g context ''info'' (fmt ''%v'' [value]) eventsAndTags)"

definition logContext_Debug ::
  "sprintf \<Rightarrow> globals \<Rightarrow> Tags logContext \<Rightarrow> dyn \<Rightarrow> dyn list \<Rightarrow> unit io" where
  "logContext_Debug fmt g context value eventsAndTags =
     (if Level g > DEBUG then ([], Return ())
      else logContext_Log fmt g context ''debug'' (fmt ''%v'' [value]) eventsAndTags)"

definition logContext_Trace ::
  "sprintf \<Rightarrow> globals \<Rightarrow> Tags logContext \<Rightarrow> dyn \<Rightarrow> dyn list \<Rightarrow> unit io" where
  "logContext_Trace fmt g context value eventsAndTags =
     (if Level g > TRACE then ([], Return ())
      else logContext_Log fmt g context ''trace'' (fmt ''%v'' [value]) eventsAndTags)"

definition logContext_Metric ::
  "sprintf \<Rightarrow> globals \<Rightarrow> Tags logContext \<Rightarrow> dyn \<Rightarrow> dyn list \<Rightarrow> unit io" where
  "logContext_Metric fmt g context value eventsAndTags =
     (if Level g > METRICS then ([], Return ())
      else logContext_Log fmt g context ''metric'' (fmt ''%v'' [value]) eventsAndTags)"

text \<open>
  The functions of the package call the verbs of \<open>defaultContext\<close>. \<open>Errorf\<close> and
  \<open>Fatalf\<close> pass their slice \<open>a\<close> on as a single argument (the source writes
  \<open>defaultContext.Errorf(format, a)\<close>), the others spread theirs.
\<close>

definition log_Errorf :: "sprintf \<Rightarrow> globals \<Rightarrow> string \<Rightarrow> dyn list \<Rightarrow> error io" where
  "log_Errorf fmt g format a = logContext_Errorf fmt g defaultContext format [DSlice a]"

definition log_Fatalf :: "sprintf \<Rightarrow> globals \<Rightarrow> string \<Rightarrow> dyn list \<Rightarrow> unit io" where
  "log_Fatalf fmt g format a = logContext_Fatalf fmt g defaultContext format [DSlice a]"

text \<open>The verbs by name, with the level each one compares the threshold with.\<close>

datatype verb = Trace | Debug | Info | Metric_verb | Error_verb | Critic

fun severity :: "verb \<Rightarrow> int" where
  "severity Trace = TRACE"
| "severity Debug = DEBUG"
| "severity Info = INFO"
| "severity Metric_verb = METRICS"
| "severity Error_verb = log_ERROR"
| "severity Critic = CRITIC"

text \<open>A call of a verb, its returned error dropped.\<close>

definition drop_result :: "'a io \<Rightarrow> unit io" where
  "drop_result m = bind_io m (\<lambda>_. ([], Return ()))"

fun call_verb ::
  "verb \<Rightarrow> sprintf \<Rightarrow> globals \<Rightarrow> Tags logContext \<Rightarrow> dyn \<Rightarrow> dyn list \<Rightarrow> unit io" where
  "call_verb Trace fmt g c v as = logContext_Trace fmt g c v as"
| "call_verb Debug fmt g c v as = logContext_Debug fmt g c v as"
| "call_verb Info fmt g c v as = logContext_Info fmt g c v as"
| "call_verb Metric_verb fmt g c v as = logContext_Metric fmt g c v as"
| "call_verb Error_verb fmt g c v as = drop_result (logContext_Error fmt g c v as)"
| "call_verb Critic fmt g c v as = drop_result (logContext_Critic fmt g c v as)"

text \<open>The lines a call printed, and the argument types \<open>logContext.Log\<close> accepts.\<close>

fun is_Println :: "event \<Rightarrow> bool" where
  "is_Println (Println l) = True"
| "is_Println _ = False"

definition emits :: "'a io \<Rightarrow> bool" where
  "emits m = (filter is_Println (fst m) \<noteq> [])"

fun supported :: "dyn \<Rightarrow> bool" where
  "supported (DString s) = True"
| "supported (DLogTags t) = True"
| "supported (DMetrics m) = True"
| "supported (DMetricTags t) = True"
| "supported _ = False"

fun panics :: "'a io \<Rightarrow> bool" where
  "panics (evs, Panic msg) = True"
| "panics _ = False"

section \<open>Maps as references\<close>

text \<open>
  A Go map is a reference: two variables can name the same map, and an assignment
  through one is seen through the other. Where that matters (does deriving a context
  write into the maps of its parent?) the maps live in a store, a list of cells; a
  reference is \<open>None\<close> for \<open>nil\<close> or the index of a cell. \<open>make\<close> adds a cell at the
  end, \<open>m[k] = v\<close> rewrites the cell of \<open>m\<close>.
\<close>

type_synonym ref = "nat option"
type_synonym map_store = "Tags list"

definition deref :: "map_store \<Rightarrow> ref \<Rightarrow> Tags" where
  "deref h r = (case r of None \<Rightarrow> [] | Some a \<Rightarrow> h ! a)"

definition valid_ref :: "map_store \<Rightarrow> ref \<Rightarrow> bool" where
  "valid_ref h r = (case r of None \<Rightarrow> True | Some a \<Rightarrow> a < length h)"

text \<open>
  The loop \<open>for k, v := range t { merged[k] = v }\<close> on the store: \<open>merged\<close> is the cell
  written to, the list is the sequence of entries the iteration over \<open>t\<close> yields.
\<close>

fun range_assign_ref :: "map_store \<Rightarrow> nat \<Rightarrow> Tags \<Rightarrow> map_store" where
  "range_assign_ref h merged [] = h"
| "range_assign_ref h merged ((k, v) # t) =
     range_assign_ref (h[merged := map_assign k v (h ! merged)]) merged t"

definition log_Tags_merge_ref :: "map_store \<Rightarrow> ref \<Rightarrow> ref \<Rightarrow> map_store \<times> ref" where
  "log_Tags_merge_ref h tgs other =
     (let merged = length h;
          h = h @ [[]];
          h = range_assign_ref h merged (deref h tgs);
          h = range_assign_ref h merged (deref h other)
      in (h, Some merged))"

definition mergeTags_ref :: "map_store \<Rightarrow> ref list \<Rightarrow> map_store \<times> ref" where
  "mergeTags_ref h tgs =
     (if length tgs = 1 then (h, hd tgs)
      else (let merged = length h;
                h = h @ [[]];
                h = foldl (\<lambda>h t. range_assign_ref h merged (deref h t)) h tgs
            in (h, Some merged)))"

definition metrics_Tags_Merge_ref :: "map_store \<Rightarrow> ref \<Rightarrow> ref \<Rightarrow> map_store \<times> ref" where
  "metrics_Tags_Merge_ref h tgs other = mergeTags_ref h [tgs, other]"

text \<open>\<open>logContext.WithContext\<close> and \<open>logContext.WithMetricsContext\<close>.\<close>

definition logContext_WithContext ::
  "map_store \<Rightarrow> ref logContext \<Rightarrow> ref \<Rightarrow> map_store \<times> ref logContext" where
  "logContext_WithContext h context tgs =
     (case log_Tags_merge_ref h (tags context) tgs of
        (h', merged) \<Rightarrow>
          (h', \<lparr>transaction = transaction context, tags = merged,
                metricTags = metricTags context\<rparr>))"

definition logContext_WithMetricsContext ::
  "map_store \<Rightarrow> ref logContext \<Rightarrow> ref \<Rightarrow> map_store \<times> ref logContext" where
  "logContext_WithMetricsContext h context mtgs =
     (case metrics_Tags_Merge_ref h (metricTags context) mtgs of
        (h', merged) \<Rightarrow>
          (h', \<lparr>transaction = transaction context, tags = tags context,
                metricTags = merged\<rparr>))"

text \<open>The context the verbs read: each map given by its contents in the store.\<close>

definition view :: "map_store \<Rightarrow> ref logContext \<Rightarrow> Tags logContext" where
  "view h context =
     \<lparr>transaction = transaction context, tags = deref h (tags context),
      metricTags = deref h (metricTags context)\<rparr>"

section \<open>Metric lists as slices\<close>

text \<open>
  \<open>type Metrics struct { Values []Metric }\<close>. A slice is a window on a backing array:
  the array it points to, its length and its capacity. The arrays live in a store; an
  array is the list of its elements, as long as its capacity. The \<open>nil\<close> slice has
  length and capacity 0.

  \<open>append(s, x)\<close> writes \<open>x\<close> into the array of \<open>s\<close> when the capacity allows it and
  moves to a new, larger array otherwise. How much larger is the choice of the Go
  runtime, a parameter here: the new capacity is \<open>grow (cap s)\<close>, and at least the
  length needed.
\<close>

record slice =
  ptr :: nat
  len :: nat
  cap :: nat

record Metrics =
  Values :: slice

type_synonym array_store = "dyn Metric list list"

definition zero_Metric :: "dyn Metric" where
  "zero_Metric = Metric [] [] 0 []"

definition append1 ::
  "(nat \<Rightarrow> nat) \<Rightarrow> array_store \<Rightarrow> slice \<Rightarrow> dyn Metric \<Rightarrow> array_store \<times> slice" where
  "append1 grow h s x =
     (if len s < cap s then
        (h[ptr s := (h ! ptr s)[len s := x]], s\<lparr>len := len s + 1\<rparr>)
      else
        (let newcap = max (len s + 1) (grow (cap s));
             arr = take (len s) (h ! ptr s) @ [x] @ replicate (newcap - (len s + 1)) zero_Metric
         in (h @ [arr], \<lparr>ptr = length h, len = len s + 1, cap = newcap\<rparr>)))"

text \<open>The records a metric list shows.\<close>

definition elems :: "array_store \<Rightarrow> Metrics \<Rightarrow> dyn Metric list" where
  "elems h metrics = take (len (Values metrics)) (h ! ptr (Values metrics))"

text \<open>The fluent adds: \<open>Metrics{append(metrics.Values, Metric{...})}\<close>.\<close>

definition Metrics_add ::
  "(nat \<Rightarrow> nat) \<Rightarrow> array_store \<Rightarrow> Metrics \<Rightarrow> dyn Metric \<Rightarrow> array_store \<times> Metrics" where
  "Metrics_add grow h metrics x =
     (case append1 grow h (Values metrics) x of (h', s) \<Rightarrow> (h', \<lparr>Values = s\<rparr>))"

definition Metrics_Full ::
  "(nat \<Rightarrow> nat) \<Rightarrow> array_store \<Rightarrow> Metrics \<Rightarrow> string \<Rightarrow> real \<Rightarrow> Tags list \<Rightarrow> array_store \<times> Metrics" where
  "Metrics_Full grow h metrics name value tgs =
     Metrics_add grow h metrics (Metric FULL name value (mergeTags tgs))"

definition Metrics_Simple ::
  "(nat \<Rightarrow> nat) \<Rightarrow> array_store \<Rightarrow> Metrics \<Rightarrow> string \<Rightarrow> real \<Rightarrow> Tags list \<Rightarrow> array_store \<times> Metrics" where
  "Metrics_Simple grow h metrics name value tgs =
     Metrics_add grow h metrics (Metric SIMPLE name value (mergeTags tgs))"

definition Metrics_Compound ::
  "(nat \<Rightarrow> nat) \<Rightarrow> array_store \<Rightarrow> Metrics \<Rightarrow> string \<Rightarrow> real \<Rightarrow> Tags list \<Rightarrow> array_store \<times> Metrics" where
  "Metrics_Compound grow h metrics name value tgs =
     Metrics_add grow h metrics (Metric COMPOUND name value (mergeTags tgs))"

definition Metrics_Counter ::
  "(nat \<Rightarrow> nat) \<Rightarrow> array_store \<Rightarrow> Metrics \<Rightarrow> string \<Rightarrow> Tags list \<Rightarrow> array_store \<times> Metrics" where
  "Metrics_Counter grow h metrics name tgs =
     Metrics_add grow h metrics (Metric SIMPLE name 1 (mergeTags tgs))"

definition Metrics_Error ::
  "(nat \<Rightarrow> nat) \<Rightarrow> array_store \<Rightarrow> Metrics \<Rightarrow> string \<Rightarrow> Tags list \<Rightarrow> array_store \<times> Metrics" where
  "Metrics_Error grow h metrics name tgs =
     Metrics_add grow h metrics (Metric metrics_ERROR name 1 (mergeTags tgs))"

text \<open>
  The fresh constructor \<open>Counter\<close>: the literal \<open>[]Metric{{...}}\<close> is a new array of one
  element.
\<close>

definition metrics_Counter :: "array_store \<Rightarrow> string \<Rightarrow> Tags list \<Rightarrow> array_store \<times> Metrics" where
  "metrics_Counter h name tgs =
     (h @ [[Metric SIMPLE name 1 (mergeTags tgs)]],
      \<lparr>Values = \<lparr>ptr = length h, len = 1, cap = 1\<rparr>\<rparr>)"

section \<open>A formatter for examples\<close>

text \<open>
  The examples need some function in the place of \<open>fmt.Sprintf\<close>. This one returns
  the format string and ignores the arguments; no example depends on the strings it
  makes.
\<close>

definition sprintf_stub :: sprintf where
  "sprintf_stub format a = format"

text \<open>A configuration for the examples: threshold \<open>l\<close>, no forwarding of metrics.\<close>

definition quiet :: "int \<Rightarrow> globals" where
  "quiet l = \<lparr>Level = l, pushMetrics = False, namePrefix = [], defaultTags = []\<rparr>"

text \<open>\<open>n\<close> calls of \<open>End\<close> in succession, on a transaction and on a segment.\<close>

fun Transaction_End_times :: "nat \<Rightarrow> Transaction \<Rightarrow> event list" where
  "Transaction_End_times 0 trx = []"
| "Transaction_End_times (Suc n) trx = Transaction_End trx @ Transaction_End_times n trx"

fun Segment_End_times :: "nat \<Rightarrow> Segment \<Rightarrow> event list" where
  "Segment_End_times 0 seg = []"
| "Segment_End_times (Suc n) seg = Segment_End seg @ Segment_End_times n seg"

text \<open>The calls of \<open>NoticeError\<close> on the tracing backend.\<close>

fun is_NoticeError :: "event \<Rightarrow> bool" where
  "is_NoticeError (NrNoticeError h name) = True"
| "is_NoticeError _ = False"

text \<open>
  A store with an empty tag map, an empty metric-tag map and the maps \<open>{"x": 1}\<close> and
  \<open>{"y": 2}\<close>, and a context on the first two with a transaction.
\<close>

definition ex_store :: map_store where
  "ex_store = [[], [], [(''x'', DInt 1)], [(''y'', DInt 2)]]"

definition ex_context :: "ref logContext" where
  "ex_context = \<lparr>transaction = Some \<lparr>nrTrx = Some 3\<rparr>, tags = Some 0, metricTags = Some 1\<rparr>"

text \<open>
  A slice is well formed in a store when its length is within its capacity and, unless
  the capacity is 0, it points to an array of the store as long as the capacity.
\<close>

definition wf_slice :: "array_store \<Rightarrow> slice \<Rightarrow> bool" where
  "wf_slice h s =
     (len s \<le> cap s \<and> (cap s = 0 \<or> (ptr s < length h \<and> length (h ! ptr s) = cap s)))"

text \<open>A chain of fluent adds: the next add is called on the result of the one before.\<close>

fun Metrics_adds ::
  "(nat \<Rightarrow> nat) \<Rightarrow> array_store \<Rightarrow> Metrics \<Rightarrow> dyn Metric list \<Rightarrow> array_store \<times> Metrics" where
  "Metrics_adds grow h metrics [] = (h, metrics)"
| "Metrics_adds grow h metrics (x # xs) =
     (case Metrics_add grow h metrics x of (h', metrics') \<Rightarrow> Metrics_adds grow h' metrics' xs)"

text \<open>
  The growth of the Go runtime for short slices, doubling (capacity 1, 2, 4), and a
  base list made with it: \<open>Counter("a").Counter("b").Counter("c")\<close>, of length 3 on an
  array of capacity 4. Then two lists made from that base: \<open>base.Counter("x")\<close>, and
  after it \<open>base.Counter("y")\<close>.
\<close>

definition double :: "nat \<Rightarrow> nat" where
  "double c = 2 * c"

definition abc :: "array_store \<times> Metrics" where
  "abc =
     (case metrics_Counter [] ''a'' [] of
        (h, m) \<Rightarrow>
          (case Metrics_Counter double h m ''b'' [] of
             (h, m) \<Rightarrow> Metrics_Counter double h m ''c'' []))"

definition abc_x :: "array_store \<times> Metrics" where
  "abc_x = Metrics_Counter double (fst abc) (snd abc) ''x'' []"

definition abc_x_y :: "array_store \<times> Metrics" where
  "abc_x_y = Metrics_Counter double (fst abc_x) (snd abc) ''y'' []"

section \<open>Properties of merging\<close>

lemma lookup_Nil: "lookup [] k = None"
  by (simp add: lookup_def)

lemma lookup_Cons: "lookup ((k', v') # m) k = (if k = k' then Some v' else lookup m k)"
  by (simp add: lookup_def)

lemma lookup_map_assign: "lookup (map_assign k v m) k' = (if k' = k then Some v else lookup m k')"
  by (induction m) (auto simp: lookup_def)

lemma keys_Nil: "keys [] = {}"
  by (simp add: keys_def)

lemma keys_Cons: "keys ((k, v) # m) = insert k (keys m)"
  by (simp add: keys_def)

lemma is_map_Nil: "is_map []"
  by (simp add: is_map_def)

lemma keys_map_assign: "keys (map_assign k v m) = insert k (keys m)"
proof (induction m)
  case Nil
  then show ?case by (simp add: keys_Nil keys_Cons)
next
  case (Cons e m)
  obtain k' v' where e: "e = (k', v')" by (cases e)
  from Cons.IH show ?case by (auto simp: e keys_Cons)
qed

lemma is_map_map_assign: "is_map m \<Longrightarrow> is_map (map_assign k v m)"
proof (induction m)
  case Nil
  then show ?case by (simp add: is_map_def)
next
  case (Cons e m)
  obtain k' v' where e: "e = (k', v')" by (cases e)
  from Cons.prems have km: "k' \<notin> keys m" and im: "is_map m"
    by (simp_all add: e is_map_def keys_def)
  from Cons.IH im have ih: "is_map (map_assign k v m)" .
  show ?case
  proof (cases "k = k'")
    case True
    with Cons.prems show ?thesis by (simp add: e is_map_def)
  next
    case False
    have "k' \<notin> keys (map_assign k v m)"
      using km False by (simp add: keys_map_assign)
    with ih False show ?thesis by (simp add: e is_map_def keys_def)
  qed
qed

lemma lookup_range_assign:
  "is_map t \<Longrightarrow>
   lookup (range_assign merged t) k = (case lookup t k of Some v \<Rightarrow> Some v | None \<Rightarrow> lookup merged k)"
proof (induction t arbitrary: merged)
  case Nil
  then show ?case by (simp add: lookup_Nil)
next
  case (Cons e t)
  obtain k' v' where e: "e = (k', v')" by (cases e)
  from Cons.prems have kt: "k' \<notin> keys t" and it: "is_map t"
    by (simp_all add: e is_map_def keys_def)
  from kt have none: "lookup t k' = None"
    by (simp add: lookup_def keys_def map_of_eq_None_iff)
  have "lookup (range_assign (map_assign k' v' merged) t) k =
        (case lookup t k of Some v \<Rightarrow> Some v | None \<Rightarrow> lookup (map_assign k' v' merged) k)"
    using Cons.IH [OF it] .
  then show ?case
    using none by (auto simp: e lookup_map_assign lookup_Cons split: option.splits)
qed

lemma keys_range_assign: "keys (range_assign merged t) = keys merged \<union> keys t"
proof (induction t arbitrary: merged)
  case Nil
  then show ?case by (simp add: keys_def)
next
  case (Cons e t)
  obtain k' v' where e: "e = (k', v')" by (cases e)
  have "keys (range_assign (map_assign k' v' merged) t) = keys (map_assign k' v' merged) \<union> keys t"
    using Cons.IH .
  then show ?case
    by (simp add: e keys_map_assign) (auto simp: keys_def)
qed

lemma is_map_range_assign: "is_map merged \<Longrightarrow> is_map (range_assign merged t)"
  by (induction t arbitrary: merged) (auto simp: is_map_map_assign)

lemma keys_lookup: "k \<in> keys m \<longleftrightarrow> lookup m k \<noteq> None"
  by (simp add: keys_def lookup_def map_of_eq_None_iff)

lemma lookup_log_Tags_merge:
  assumes "is_map A" and "is_map B"
  shows "lookup (log_Tags_merge A B) k = (case lookup B k of Some v \<Rightarrow> Some v | None \<Rightarrow> lookup A k)"
proof -
  have "lookup (range_assign [] A) k = lookup A k"
    using lookup_range_assign [OF assms(1), of "[]" k]
    by (simp add: lookup_Nil split: option.splits)
  then show ?thesis
    using lookup_range_assign [OF assms(2), of "range_assign [] A" k]
    by (simp add: log_Tags_merge_def split: option.splits)
qed

lemma keys_log_Tags_merge: "keys (log_Tags_merge A B) = keys A \<union> keys B"
  by (simp add: log_Tags_merge_def keys_range_assign keys_Nil)

lemma is_map_log_Tags_merge: "is_map (log_Tags_merge A B)"
  by (simp add: log_Tags_merge_def is_map_range_assign is_map_Nil)

lemma metrics_Tags_Merge_eq: "metrics_Tags_Merge A B = log_Tags_merge A B"
  by (simp add: metrics_Tags_Merge_def mergeTags_def log_Tags_merge_def)

section \<open>Properties of \<open>logContext.Log\<close>\<close>

text \<open>
  The loop over the arguments ends in a panic exactly when some argument has none of
  the four supported types, and the message of the panic is made from the first such
  argument.
\<close>

lemma Log_classify_panics_iff:
  "(\<exists>msg. Log_classify fmt as st = Inl msg) \<longleftrightarrow> (\<exists>a\<in>set as. \<not> supported a)"
proof (induction as arbitrary: st)
  case Nil
  then show ?case by simp
next
  case (Cons a as)
  obtain tgs mtgs metric where st: "st = (tgs, mtgs, metric)" by (cases st)
  show ?case
    by (cases a) (simp_all add: st Cons.IH)
qed

lemma Log_classify_message:
  "Log_classify fmt as st = Inl msg \<Longrightarrow>
   \<exists>a. find (\<lambda>a. \<not> supported a) as = Some a
     \<and> msg = fmt ''Argument must be of type Tags, Metrics or string: %v'' [a]"
proof (induction as arbitrary: st)
  case Nil
  then show ?case by simp
next
  case (Cons a as)
  obtain tgs mtgs metric where st: "st = (tgs, mtgs, metric)" by (cases st)
  from Cons.prems show ?case
    by (cases a) (auto simp: st dest: Cons.IH)
qed

text \<open>
  \<open>logContext.Errorf\<close> calls \<open>Log\<close> with no variadic argument, so that call neither
  panics nor pushes a metric: the recursion between the two ends there, and the loop
  that pushes the metrics always returns.
\<close>

lemma bind_io_Return: "bind_io (evs, Return x) k = (evs @ fst (k x), snd (k x))"
  by (simp add: bind_io_def split: prod.splits)

lemma bind_io_Panic: "bind_io (evs, Panic msg) k = (evs, Panic msg)"
  by (simp add: bind_io_def)

lemma bind_io_Exit: "bind_io (evs, Exit c) k = (evs, Exit c)"
  by (simp add: bind_io_def)

lemma logContext_Errorf_eval:
  "logContext_Errorf fmt g c format a =
     ((if Level g \<le> log_ERROR
       then log_Log fmt (log_Tags_merge
              (log_Tags_merge (tags c)
                 [(''level'', DString ''error''),
                  (''message'', DString (fmt ''%s'' [DError (fmt format a)]))]) [])
       else []),
      Return (Some (fmt format a)))"
  by (simp add: bind_io_Return Let_def)

lemma Log_push_returns: "\<exists>evs. Log_push fmt g c mt ms = (evs, Return ())"
proof (induction ms)
  case Nil
  then show ?case by simp
next
  case (Cons m ms)
  then obtain evs where ih: "Log_push fmt g c mt ms = (evs, Return ())" by blast
  show ?case
    by (cases "PushMetric fmt g m (transaction c) [mt]")
       (auto simp: ih bind_io_Return logContext_Errorf_eval simp del: logContext_Errorf.simps
             split: option.splits)
qed

lemma logContext_Log_panic:
  "Log_classify fmt as ([], metricTags c, []) = Inl msg \<Longrightarrow>
   logContext_Log fmt g c level message as = ([], Panic msg)"
  by simp

lemma logContext_Log_return:
  assumes "Log_classify fmt as ([], metricTags c, []) = Inr (tgs, mtgs, metric)"
  shows "\<exists>evs. logContext_Log fmt g c level message as =
           (log_Log fmt (log_Tags_merge (log_Tags_merge (tags c)
               [(''level'', DString level), (''message'', DString message)]) tgs) @ evs,
            Return ())"
proof -
  obtain evs where "Log_push fmt g c mtgs metric = (evs, Return ())"
    using Log_push_returns by blast
  then show ?thesis
    using assms by (simp add: bind_io_Return)
qed

lemma logContext_Log_panics_iff:
  "panics (logContext_Log fmt g c level message as) \<longleftrightarrow> (\<exists>a\<in>set as. \<not> supported a)"
proof (cases "Log_classify fmt as ([], metricTags c, [])")
  case (Inl msg)
  then have "\<exists>a\<in>set as. \<not> supported a"
    using Log_classify_panics_iff [of fmt as "([], metricTags c, [])"] by blast
  then show ?thesis using Inl by simp
next
  case (Inr st)
  obtain tgs mtgs metric where st: "st = (tgs, mtgs, metric)" by (cases st)
  have "\<not> (\<exists>a\<in>set as. \<not> supported a)"
    using Inr Log_classify_panics_iff [of fmt as "([], metricTags c, [])"] by auto
  moreover obtain evs where "snd (logContext_Log fmt g c level message as) = Return ()"
    using logContext_Log_return [of fmt as c tgs mtgs metric g level message] Inr st by auto
  ultimately show ?thesis
    by (cases "logContext_Log fmt g c level message as") auto
qed

lemma logContext_Log_emits_iff:
  "emits (logContext_Log fmt g c level message as) \<longleftrightarrow> (\<forall>a\<in>set as. supported a)"
proof (cases "Log_classify fmt as ([], metricTags c, [])")
  case (Inl msg)
  then have "\<exists>a\<in>set as. \<not> supported a"
    using Log_classify_panics_iff [of fmt as "([], metricTags c, [])"] by blast
  then show ?thesis using Inl by (auto simp: emits_def)
next
  case (Inr st)
  obtain tgs mtgs metric where st: "st = (tgs, mtgs, metric)" by (cases st)
  have all: "\<forall>a\<in>set as. supported a"
    using Inr Log_classify_panics_iff [of fmt as "([], metricTags c, [])"] by auto
  obtain evs where "logContext_Log fmt g c level message as =
      (log_Log fmt (log_Tags_merge (log_Tags_merge (tags c)
         [(''level'', DString level), (''message'', DString message)]) tgs) @ evs, Return ())"
    using logContext_Log_return [of fmt as c tgs mtgs metric g level message] Inr st by auto
  then have "emits (logContext_Log fmt g c level message as)"
    by (simp add: emits_def log_Log_def)
  with all show ?thesis by simp
qed

lemma logContext_Log_panic_silent:
  "panics (logContext_Log fmt g c level message as) \<Longrightarrow>
   fst (logContext_Log fmt g c level message as) = []"
proof (cases "Log_classify fmt as ([], metricTags c, [])")
  case (Inl msg)
  then show ?thesis by simp
next
  case (Inr st)
  assume p: "panics (logContext_Log fmt g c level message as)"
  obtain tgs mtgs metric where st: "st = (tgs, mtgs, metric)" by (cases st)
  obtain evs where "logContext_Log fmt g c level message as =
      (log_Log fmt (log_Tags_merge (log_Tags_merge (tags c)
         [(''level'', DString level), (''message'', DString message)]) tgs) @ evs, Return ())"
    using logContext_Log_return [of fmt as c tgs mtgs metric g level message] Inr st by auto
  with p show ?thesis by simp
qed

lemma logContext_Log_first_unsupported:
  assumes "find (\<lambda>a. \<not> supported a) as = Some a"
  shows "logContext_Log fmt g c level message as =
           ([], Panic (fmt ''Argument must be of type Tags, Metrics or string: %v'' [a]))"
proof -
  from assms have "\<exists>a\<in>set as. \<not> supported a"
    by (auto simp: find_Some_iff)
  then obtain msg where inl: "Log_classify fmt as ([], metricTags c, []) = Inl msg"
    using Log_classify_panics_iff [of fmt as "([], metricTags c, [])"] by blast
  from Log_classify_message [OF inl] assms
  have "msg = fmt ''Argument must be of type Tags, Metrics or string: %v'' [a]" by auto
  with inl show ?thesis by simp
qed

lemma snd_bind_Return: "snd (bind_io m (\<lambda>_. ([], Return x))) = Return x \<longleftrightarrow> (\<exists>y. snd m = Return y)"
  by (cases m; cases "snd m") (auto simp: bind_io_def)

lemma logContext_Log_returns:
  "\<forall>a\<in>set as. supported a \<Longrightarrow> snd (logContext_Log fmt g c level message as) = Return ()"
proof -
  assume "\<forall>a\<in>set as. supported a"
  then have "\<not> panics (logContext_Log fmt g c level message as)"
    by (simp add: logContext_Log_panics_iff del: logContext_Log.simps)
  moreover have "\<And>code. snd (logContext_Log fmt g c level message as) \<noteq> Exit code"
  proof (cases "Log_classify fmt as ([], metricTags c, [])")
    case (Inl msg)
    fix code show "snd (logContext_Log fmt g c level message as) \<noteq> Exit code"
      using Inl by simp
  next
    case (Inr st)
    obtain tgs mtgs metric where st: "st = (tgs, mtgs, metric)" by (cases st)
    fix code show "snd (logContext_Log fmt g c level message as) \<noteq> Exit code"
      using logContext_Log_return [of fmt as c tgs mtgs metric g level message] Inr st by auto
  qed
  ultimately show ?thesis
    by (cases "logContext_Log fmt g c level message as"; cases "snd (logContext_Log fmt g c level message as)")
       auto
qed

text \<open>The verbs: the gate first, then \<open>Log\<close>.\<close>

lemma emits_bind_unit: "emits (bind_io m (\<lambda>_. ([], r))) = emits m"
  by (cases m; cases "snd m") (auto simp: bind_io_def emits_def)

lemma panics_bind_unit: "panics (bind_io m (\<lambda>_. ([], Return x))) = panics m"
  by (cases m; cases "snd m") (auto simp: bind_io_def)

lemma emits_silent: "\<not> emits ([], r)"
  by (simp add: emits_def)

lemma emits_call_verb:
  "emits (call_verb verb fmt g c v as) \<longleftrightarrow>
     Level g \<le> severity verb \<and> (\<forall>a\<in>set as. supported a)"
  by (cases verb)
     (auto simp: logContext_Trace_def logContext_Debug_def logContext_Info_def
        logContext_Metric_def logContext_Error_def logContext_Critic_def drop_result_def
        emits_bind_unit emits_silent logContext_Log_emits_iff Let_def
        simp del: logContext_Log.simps)

lemma suppressed_call_verb:
  "severity verb < Level g \<Longrightarrow> call_verb verb fmt g c v as = ([], Return ())"
  by (cases verb)
     (simp_all add: logContext_Trace_def logContext_Debug_def logContext_Info_def
        logContext_Metric_def logContext_Error_def logContext_Critic_def drop_result_def
        bind_io_Return Let_def del: logContext_Log.simps)

lemma panics_call_verb:
  "Level g \<le> severity verb \<Longrightarrow>
   panics (call_verb verb fmt g c v as) \<longleftrightarrow> (\<exists>a\<in>set as. \<not> supported a)"
  by (cases verb)
     (simp_all add: logContext_Trace_def logContext_Debug_def logContext_Info_def
        logContext_Metric_def logContext_Error_def logContext_Critic_def drop_result_def
        panics_bind_unit logContext_Log_panics_iff Let_def del: logContext_Log.simps)

text \<open>
  Below its threshold \<open>Fatalf\<close> does not reach \<open>os.Exit\<close>: the slice it hands to \<open>Log\<close>
  as one argument is of no supported type, and \<open>Log\<close> panics before it prints.
\<close>

lemma Fatalf_below_threshold_panics:
  "Level g \<le> FATAL \<Longrightarrow>
   logContext_Fatalf fmt g c format a =
     ([], Panic (fmt ''Argument must be of type Tags, Metrics or string: %v'' [DSlice a]))"
  by (simp add: logContext_Fatalf_def bind_io_def)

section \<open>The level gate\<close>

text \<open>
  Claim C1, as the code has it. A verb with level \<open>S\<close> (\<open>Trace\<close> -1, \<open>Debug\<close> 0, \<open>Info\<close> and
  \<open>Metric\<close> 1, \<open>Error\<close> and \<open>Critic\<close> 4) prints a line if and only if the threshold is at
  most \<open>S\<close> and every variadic argument has a supported type. With the threshold above
  \<open>S\<close> the verb returns at once, whatever the arguments: no classification (so no
  panic), no line, no call of the metrics backend. A threshold equal to \<open>S\<close> passes the
  gate.
\<close>

theorem verb_gate:
  "(emits (call_verb verb fmt g c v as) \<longleftrightarrow>
      Level g \<le> severity verb \<and> (\<forall>a\<in>set as. supported a))
   \<and> (severity verb < Level g \<longrightarrow> call_verb verb fmt g c v as = ([], Return ()))
   \<and> severity Trace = - 1 \<and> severity Debug = 0 \<and> severity Info = 1
   \<and> severity Metric_verb = 1 \<and> severity Error_verb = 4 \<and> severity Critic = 4"
  using emits_call_verb [of verb fmt g c v as] suppressed_call_verb [of verb g fmt c v as]
  by (simp add: TRACE_def DEBUG_def INFO_def METRICS_def log_ERROR_def CRITIC_def)

text \<open>An instance: at threshold 1, \<open>Info\<close> prints and \<open>Debug\<close> returns at once.\<close>

theorem verb_gate_witness:
  "emits (call_verb Info sprintf_stub (quiet 1) defaultContext (DString ''x'') [DString ''started''])
   \<and> call_verb Debug sprintf_stub (quiet 1) defaultContext (DString ''x'') [DInt 42] = ([], Return ())"
  using verb_gate [of Info sprintf_stub "quiet 1" defaultContext "DString ''x''" "[DString ''started'']"]
    verb_gate [of Debug sprintf_stub "quiet 1" defaultContext "DString ''x''" "[DInt 42]"]
  by (simp add: quiet_def INFO_def DEBUG_def)

text \<open>
  As the claim is written (a line whenever the threshold is at most \<open>S\<close>) it fails:
  \<open>Info("x", 42)\<close> at threshold 1 passes the gate and panics on the integer before any
  line is printed.
\<close>

theorem verb_gate_counterexample:
  "Level (quiet 1) \<le> severity Info
   \<and> \<not> emits (call_verb Info sprintf_stub (quiet 1) defaultContext (DString ''x'') [DInt 42])"
  by (simp add: quiet_def INFO_def logContext_Info_def emits_def)

section \<open>Fatalf\<close>

text \<open>
  Claim C2, as the code has it. \<open>Fatalf\<close> never returns to its caller. Its logging step
  is behind the level gate: with the threshold above \<open>FATAL\<close> (4) nothing is logged and
  the process exits with status 1.
\<close>

theorem Fatalf_exit_gated:
  "(FATAL < Level g \<longrightarrow> logContext_Fatalf fmt g c format a = ([], Exit 1))
   \<and> snd (logContext_Fatalf fmt g c format a) \<noteq> Return ()"
proof -
  have 1: "FATAL < Level g \<longrightarrow> logContext_Fatalf fmt g c format a = ([], Exit 1)"
    by (simp add: logContext_Fatalf_def bind_io_Return del: logContext_Log.simps)
  have 2: "snd (logContext_Fatalf fmt g c format a) \<noteq> Return ()"
    by (cases "logContext_Log fmt g c ''fatal'' format [DSlice a]";
        cases "snd (logContext_Log fmt g c ''fatal'' format [DSlice a])")
       (auto simp: logContext_Fatalf_def bind_io_def simp del: logContext_Log.simps)
  from 1 2 show ?thesis by blast
qed

text \<open>An instance: at threshold \<open>NONE\<close>, \<open>Fatalf\<close> exits with status 1 and no event.\<close>

theorem Fatalf_exit_gated_witness:
  "logContext_Fatalf sprintf_stub (quiet NONE) defaultContext ''boom %d'' [DInt 1] = ([], Exit 1)"
  using Fatalf_exit_gated [of "quiet NONE" sprintf_stub defaultContext "''boom %d''" "[DInt 1]"]
  by (simp add: quiet_def NONE_def FATAL_def)

text \<open>
  As the claim is written (the message is logged at every threshold) it fails: at
  threshold \<open>NONE\<close> no line is printed.
\<close>

theorem Fatalf_exit_gated_counterexample:
  "\<not> emits (logContext_Fatalf sprintf_stub (quiet NONE) defaultContext ''boom %d'' [DInt 1])"
  by (simp add: logContext_Fatalf_def quiet_def NONE_def FATAL_def bind_io_def emits_def)

section \<open>The error verbs\<close>

text \<open>
  Claim C3, as the code has it. \<open>Errorf\<close> always returns the error made from its format
  and arguments. \<open>Error\<close> and \<open>Critic\<close> return the error made from their value when the
  threshold suppresses the line (whatever the variadic arguments), and when every
  variadic argument has a supported type (whatever the threshold). The error is never
  \<open>nil\<close>.
\<close>

theorem error_verbs_return_error:
  "snd (logContext_Errorf fmt g c format a) = Return (Some (fmt format a))
   \<and> (log_ERROR < Level g \<longrightarrow>
        logContext_Error fmt g c v as = ([], Return (Some (fmt ''%v'' [v]))))
   \<and> (CRITIC < Level g \<longrightarrow>
        logContext_Critic fmt g c v as = ([], Return (Some (fmt ''%v'' [v]))))
   \<and> ((\<forall>a\<in>set as. supported a) \<longrightarrow>
        snd (logContext_Error fmt g c v as) = Return (Some (fmt ''%v'' [v]))
        \<and> snd (logContext_Critic fmt g c v as) = Return (Some (fmt ''%v'' [v])))"
proof -
  have 1: "snd (logContext_Errorf fmt g c format a) = Return (Some (fmt format a))"
    by (simp add: logContext_Errorf_eval del: logContext_Errorf.simps)
  have 2: "log_ERROR < Level g \<longrightarrow>
        logContext_Error fmt g c v as = ([], Return (Some (fmt ''%v'' [v])))"
    by (simp add: logContext_Error_def bind_io_Return Let_def del: logContext_Log.simps)
  have 3: "CRITIC < Level g \<longrightarrow>
        logContext_Critic fmt g c v as = ([], Return (Some (fmt ''%v'' [v])))"
    by (simp add: logContext_Critic_def bind_io_Return Let_def del: logContext_Log.simps)
  have 4: "(\<forall>a\<in>set as. supported a) \<longrightarrow>
        snd (logContext_Error fmt g c v as) = Return (Some (fmt ''%v'' [v]))"
    using logContext_Log_returns [of as fmt g c]
    by (simp add: logContext_Error_def snd_bind_Return Let_def del: logContext_Log.simps)
  have 5: "(\<forall>a\<in>set as. supported a) \<longrightarrow>
        snd (logContext_Critic fmt g c v as) = Return (Some (fmt ''%v'' [v]))"
    using logContext_Log_returns [of as fmt g c]
    by (simp add: logContext_Critic_def snd_bind_Return Let_def del: logContext_Log.simps)
  from 1 2 3 4 5 show ?thesis by blast
qed

text \<open>
  An instance: \<open>Error\<close> suppressed at threshold 100, \<open>Critic\<close> emitted at threshold 0;
  both return the error.
\<close>

theorem error_verbs_return_error_witness:
  "logContext_Error sprintf_stub (quiet 100) defaultContext (DString ''x'') [DInt 42]
     = ([], Return (Some (sprintf_stub ''%v'' [DString ''x''])))
   \<and> snd (logContext_Critic sprintf_stub (quiet 0) defaultContext (DString ''x'') [DString ''e''])
     = Return (Some (sprintf_stub ''%v'' [DString ''x'']))
   \<and> snd (logContext_Errorf sprintf_stub (quiet 0) defaultContext ''%d items'' [DInt 3])
     = Return (Some (sprintf_stub ''%d items'' [DInt 3]))"
  using error_verbs_return_error [of sprintf_stub "quiet 100" defaultContext "''%d items''" "[DInt 3]" "DString ''x''" "[DInt 42]"]
    error_verbs_return_error [of sprintf_stub "quiet 0" defaultContext "''%d items''" "[DInt 3]" "DString ''x''" "[DString ''e'']"]
  by (simp add: quiet_def log_ERROR_def del: logContext_Log.simps logContext_Errorf.simps)

text \<open>
  As the claim is written (an error is returned for every input) it fails:
  \<open>Error("x", 42)\<close> at threshold 0 passes the gate, and \<open>Log\<close> panics on the integer;
  the call returns nothing.
\<close>

theorem error_verbs_return_error_counterexample:
  "Level (quiet 0) \<le> log_ERROR
   \<and> panics (logContext_Error sprintf_stub (quiet 0) defaultContext (DString ''x'') [DInt 42])
   \<and> fst (logContext_Error sprintf_stub (quiet 0) defaultContext (DString ''x'') [DInt 42]) = []"
  by (simp add: quiet_def log_ERROR_def logContext_Error_def bind_io_def)

section \<open>Dispatch of an error metric\<close>

text \<open>
  Claim C4. \<open>PushMetric\<close> on a record of type \<open>ERROR\<close> with a transaction calls
  \<open>NoticeError\<close> of the transaction once, with the name qualified by the prefix, and
  then records a simple metric of value 1 under that name; when the transaction wraps
  a handle, that is one call of the tracing backend, before the call of the metrics
  backend. Without a transaction only the simple metric of value 1 is recorded. No
  error is returned.
\<close>

theorem PushMetric_ERROR:
  assumes "metricType m = metrics_ERROR"
  shows "PushMetric fmt g m (Some t) tgs =
           (Transaction_NoticeError t (namePrefix g @ ''.'' @ Name m)
              @ [RecordSimpleMetric (namePrefix g @ ''.'' @ Name m) 1
                   (asMetricTags fmt (metrics_Tags_Merge (defaultTags g) (mergeTags tgs)))],
            None)
       \<and> (nrTrx t = Some h \<longrightarrow>
            fst (PushMetric fmt g m (Some t) tgs) =
              [NrNoticeError h (namePrefix g @ ''.'' @ Name m),
               RecordSimpleMetric (namePrefix g @ ''.'' @ Name m) 1
                 (asMetricTags fmt (metrics_Tags_Merge (defaultTags g) (mergeTags tgs)))])
       \<and> (nrTrx t = Some h \<longrightarrow>
            length (filter is_NoticeError (fst (PushMetric fmt g m (Some t) tgs))) = 1)
       \<and> PushMetric fmt g m None tgs =
           ([RecordSimpleMetric (namePrefix g @ ''.'' @ Name m) 1
               (asMetricTags fmt (metrics_Tags_Merge (defaultTags g) (mergeTags tgs)))],
            None)"
  using assms
  by (simp add: PushMetric_def Let_def Transaction_NoticeError_def
        metrics_ERROR_def FULL_def SIMPLE_def COMPOUND_def)

text \<open>An instance: prefix \<open>svc\<close>, metric \<open>db\<close> of value 7, transaction on handle 3.\<close>

theorem PushMetric_ERROR_witness:
  "PushMetric sprintf_stub \<lparr>Level = 1, pushMetrics = True, namePrefix = ''svc'', defaultTags = []\<rparr>
     (Metric metrics_ERROR ''db'' 7 []) (Some \<lparr>nrTrx = Some 3\<rparr>) [[]]
   = ([NrNoticeError 3 ''svc.db'', RecordSimpleMetric ''svc.db'' 1 []], None)"
proof -
  have mt: "metricType (Metric metrics_ERROR ''db'' 7 []) = metrics_ERROR" by simp
  have h: "nrTrx \<lparr>nrTrx = Some 3\<rparr> = Some 3" by simp
  show ?thesis
    using PushMetric_ERROR [OF mt, of sprintf_stub
        "\<lparr>Level = 1, pushMetrics = True, namePrefix = ''svc'', defaultTags = []\<rparr>"
        "\<lparr>nrTrx = Some 3\<rparr>" "[[]]" 3] h
    by (simp add: Transaction_NoticeError_def asMetricTags_def metrics_Tags_Merge_def mergeTags_def)
qed

section \<open>Ending transactions and segments\<close>

text \<open>
  Claim C5, as the code has it. \<open>End\<close> on a transaction or a segment that wraps no handle
  (\<open>NullSegment()\<close> is one) calls nothing, however often it is called. \<open>End\<close> on one
  that wraps a handle calls \<open>End\<close> of the backend on that handle at every call: \<open>n\<close>
  calls make \<open>n\<close> backend calls, since the wrapper keeps no record of having ended.
\<close>

theorem End_forwards_every_call:
  "(nrTrx trx = None \<longrightarrow> Transaction_End_times n trx = [])
   \<and> (nrSeg seg = None \<longrightarrow> Segment_End_times n seg = [])
   \<and> Segment_End_times n NullSegment = []
   \<and> (nrTrx trx = Some h \<longrightarrow> Transaction_End_times n trx = replicate n (NrTransactionEnd h))
   \<and> (nrSeg seg = Some h \<longrightarrow> Segment_End_times n seg = replicate n (NrSegmentEnd h))"
  by (induction n) (auto simp: Transaction_End_def Segment_End_def NullSegment_def)

text \<open>An instance: two calls without a handle, two calls on the segment handle 5.\<close>

theorem End_forwards_every_call_witness:
  "Transaction_End_times 2 \<lparr>nrTrx = None\<rparr> = []
   \<and> Segment_End_times 2 \<lparr>nrSeg = Some 5\<rparr> = [NrSegmentEnd 5, NrSegmentEnd 5]"
  using End_forwards_every_call [of "\<lparr>nrTrx = None\<rparr>" 2 "\<lparr>nrSeg = Some 5\<rparr>" 5]
  by (simp add: numeral_2_eq_2)

text \<open>
  As the claim is written (no duplicate backend call) it fails: two calls of \<open>End\<close> on
  a transaction with handle 7 end that handle twice.
\<close>

theorem End_twice_counterexample:
  "Transaction_End_times 2 \<lparr>nrTrx = Some 7\<rparr> = [NrTransactionEnd 7, NrTransactionEnd 7]"
  by (simp add: numeral_2_eq_2 Transaction_End_def)

section \<open>Merging tag maps\<close>

text \<open>
  Claim C6. For all tag maps \<open>A\<close> and \<open>B\<close>, the merge of \<open>A\<close> with \<open>B\<close> has exactly the keys
  of \<open>A\<close> and of \<open>B\<close>; a key of \<open>A\<close> alone keeps the value of \<open>A\<close>, every key of \<open>B\<close> has
  the value of \<open>B\<close>, also where \<open>A\<close> has the key too (the last write wins). The result is
  a map again, \<open>Merge\<close> of package \<open>metrics\<close> computes the same map as \<open>merge\<close> of
  package \<open>log\<close>, and merging \<open>{"a": 1}\<close> with \<open>{"a": 2}\<close> gives \<open>{"a": 2}\<close>.
\<close>

theorem merge_last_write_wins:
  assumes "is_map A" and "is_map B"
  shows "keys (log_Tags_merge A B) = keys A \<union> keys B
       \<and> (k \<in> keys A \<and> k \<notin> keys B \<longrightarrow> lookup (log_Tags_merge A B) k = lookup A k)
       \<and> (k \<in> keys B \<longrightarrow> lookup (log_Tags_merge A B) k = lookup B k)
       \<and> is_map (log_Tags_merge A B)
       \<and> metrics_Tags_Merge A B = log_Tags_merge A B
       \<and> log_Tags_merge [(''a'', DInt 1)] [(''a'', DInt 2)] = [(''a'', DInt 2)]"
proof -
  have look: "lookup (log_Tags_merge A B) k =
              (case lookup B k of Some v \<Rightarrow> Some v | None \<Rightarrow> lookup A k)"
    using assms by (rule lookup_log_Tags_merge)
  have only_A: "k \<in> keys A \<and> k \<notin> keys B \<longrightarrow> lookup (log_Tags_merge A B) k = lookup A k"
    using look by (simp add: keys_lookup)
  have in_B: "k \<in> keys B \<longrightarrow> lookup (log_Tags_merge A B) k = lookup B k"
    using look by (auto simp: keys_lookup)
  have ex: "log_Tags_merge [(''a'', DInt 1)] [(''a'', DInt 2)] = [(''a'', DInt 2)]"
    by (simp add: log_Tags_merge_def)
  show ?thesis
    using only_A in_B ex keys_log_Tags_merge [of A B] is_map_log_Tags_merge [of A B]
      metrics_Tags_Merge_eq [of A B]
    by simp
qed

text \<open>An instance: two maps that share the key \<open>a\<close>.\<close>

theorem merge_last_write_wins_witness:
  "is_map [(''a'', DInt 1), (''b'', DInt 5)] \<and> is_map [(''a'', DInt 2), (''c'', DInt 3)]
   \<and> lookup (log_Tags_merge [(''a'', DInt 1), (''b'', DInt 5)] [(''a'', DInt 2), (''c'', DInt 3)]) ''a''
       = Some (DInt 2)
   \<and> keys (log_Tags_merge [(''a'', DInt 1), (''b'', DInt 5)] [(''a'', DInt 2), (''c'', DInt 3)])
       = {''a'', ''b'', ''c''}"
proof -
  have a: "is_map [(''a'', DInt 1), (''b'', DInt 5)]" by (simp add: is_map_def)
  have b: "is_map [(''a'', DInt 2), (''c'', DInt 3)]" by (simp add: is_map_def)
  have kb: "''a'' \<in> keys [(''a'', DInt 2), (''c'', DInt 3)]" by (simp add: keys_def)
  show ?thesis
    using a b kb merge_last_write_wins [OF a b, of "''a''"]
    by (auto simp: keys_def lookup_def)
qed

section \<open>Unsupported arguments\<close>

text \<open>
  Claim C9. A call of \<open>logContext.Log\<close> panics if and only if one of its variadic
  arguments is neither a string, nor a \<open>log.Tags\<close>, nor a \<open>metrics.Metrics\<close>, nor a
  \<open>metrics.Tags\<close>. The panic is immediate: it is raised at the first such argument,
  with that argument in its message, before a line is printed or a metric pushed. The
  same holds for every verb called at a threshold that passes its gate; arguments of
  the four supported types never make the call panic.
\<close>

theorem unsupported_argument_panics:
  "(panics (logContext_Log fmt g c level message as) \<longleftrightarrow> (\<exists>a\<in>set as. \<not> supported a))
   \<and> (panics (logContext_Log fmt g c level message as) \<longrightarrow>
        fst (logContext_Log fmt g c level message as) = [])
   \<and> (find (\<lambda>a. \<not> supported a) as = Some a \<longrightarrow>
        logContext_Log fmt g c level message as =
          ([], Panic (fmt ''Argument must be of type Tags, Metrics or string: %v'' [a])))
   \<and> (Level g \<le> severity verb \<longrightarrow>
        (panics (call_verb verb fmt g c v as) \<longleftrightarrow> (\<exists>a\<in>set as. \<not> supported a)))"
  using logContext_Log_panics_iff [of fmt g c level message as]
    logContext_Log_panic_silent [of fmt g c level message as]
    logContext_Log_first_unsupported [of as a fmt g c level message]
    panics_call_verb [of g verb fmt c v as]
  by blast

text \<open>
  An instance: a string followed by an integer panics with no event; one argument of
  each supported type does not panic.
\<close>

theorem unsupported_argument_panics_witness:
  "panics (logContext_Log sprintf_stub (quiet 0) defaultContext ''info'' ''x'' [DString ''e'', DInt 42])
   \<and> fst (logContext_Log sprintf_stub (quiet 0) defaultContext ''info'' ''x'' [DString ''e'', DInt 42]) = []
   \<and> \<not> panics (call_verb Info sprintf_stub (quiet 0) defaultContext (DString ''x'')
          [DString ''e'', DLogTags [(''k'', DInt 1)], DMetrics [], DMetricTags []])"
  using unsupported_argument_panics [of sprintf_stub "quiet 0" defaultContext "''info''" "''x''"
      "[DString ''e'', DInt 42]" "DInt 42" Info "DString ''x''"]
    unsupported_argument_panics [of sprintf_stub "quiet 0" defaultContext "''info''" "''x''"
      "[DString ''e'', DLogTags [(''k'', DInt 1)], DMetrics [], DMetricTags []]" "DInt 42" Info "DString ''x''"]
  by (simp add: quiet_def INFO_def del: logContext_Log.simps)

section \<open>Deriving contexts\<close>

text \<open>
  On the store, \<open>merge\<close> writes only into the map it has made: the store afterwards is
  the store before with one more cell, which holds the merge of the two maps.
\<close>

lemma length_range_assign_ref: "length (range_assign_ref h m t) = length h"
  by (induction t arbitrary: h) auto

lemma range_assign_ref_cell:
  "m < length h \<Longrightarrow> range_assign_ref h m t = h[m := range_assign (h ! m) t]"
proof (induction t arbitrary: h)
  case Nil
  then show ?case by simp
next
  case (Cons e t)
  obtain k v where e: "e = (k, v)" by (cases e)
  let ?h = "h[m := map_assign k v (h ! m)]"
  have "m < length ?h" using Cons.prems by simp
  then have "range_assign_ref ?h m t = ?h[m := range_assign (?h ! m) t]"
    by (rule Cons.IH)
  then show ?case using Cons.prems by (simp add: e)
qed

lemma deref_append: "valid_ref h r \<Longrightarrow> deref (h @ h') r = deref h r"
  by (cases r) (simp_all add: deref_def valid_ref_def nth_append)

lemma deref_new: "deref (h @ [m]) (Some (length h)) = m"
  by (simp add: deref_def)

lemma valid_ref_append: "valid_ref h r \<Longrightarrow> valid_ref (h @ h') r"
  by (cases r) (simp_all add: valid_ref_def)

lemma log_Tags_merge_ref_eq:
  assumes "valid_ref h a" and "valid_ref h b"
  shows "log_Tags_merge_ref h a b =
           (h @ [log_Tags_merge (deref h a) (deref h b)], Some (length h))"
proof -
  let ?h0 = "h @ [[]]"
  have a0: "deref ?h0 a = deref h a" using assms(1) by (rule deref_append)
  have h1: "range_assign_ref ?h0 (length h) (deref h a) = h @ [range_assign [] (deref h a)]"
    by (simp add: range_assign_ref_cell)
  have b1: "deref (h @ [range_assign [] (deref h a)]) b = deref h b"
    using assms(2) by (rule deref_append)
  have h2: "range_assign_ref (h @ [range_assign [] (deref h a)]) (length h) (deref h b)
              = h @ [range_assign (range_assign [] (deref h a)) (deref h b)]"
    by (simp add: range_assign_ref_cell)
  show ?thesis
    by (simp add: log_Tags_merge_ref_def Let_def a0 h1 b1 h2 log_Tags_merge_def)
qed

lemma logContext_WithContext_eq:
  assumes "valid_ref h (tags ctx)" and "valid_ref h t"
  shows "logContext_WithContext h ctx t =
           (h @ [log_Tags_merge (deref h (tags ctx)) (deref h t)],
            \<lparr>transaction = transaction ctx, tags = Some (length h),
             metricTags = metricTags ctx\<rparr>)"
  using log_Tags_merge_ref_eq [OF assms] by (simp add: logContext_WithContext_def)

lemma metrics_Tags_Merge_ref_eq: "metrics_Tags_Merge_ref h a b = log_Tags_merge_ref h a b"
  by (simp add: metrics_Tags_Merge_ref_def mergeTags_ref_def log_Tags_merge_ref_def Let_def)

lemma logContext_WithMetricsContext_eq:
  assumes "valid_ref h (metricTags ctx)" and "valid_ref h t"
  shows "logContext_WithMetricsContext h ctx t =
           (h @ [metrics_Tags_Merge (deref h (metricTags ctx)) (deref h t)],
            \<lparr>transaction = transaction ctx, tags = tags ctx,
             metricTags = Some (length h)\<rparr>)"
  using log_Tags_merge_ref_eq [OF assms]
  by (simp add: logContext_WithMetricsContext_def metrics_Tags_Merge_ref_eq metrics_Tags_Merge_eq)

text \<open>
  Claim C7. Deriving twice, \<open>ctx.WithContext(t1).WithContext(t2)\<close>, gives a context
  whose tags are the merge of the tags of \<open>ctx\<close> with \<open>t1\<close> and then with \<open>t2\<close>, and whose
  transaction and metric-tags are those of \<open>ctx\<close> (the same transaction, the same map).
  No map that existed before is written to: the tags, the metric-tags and the
  transaction of \<open>ctx\<close> read after the derivations as they did before, and so do those
  of the intermediate context.
\<close>

theorem WithContext_derives:
  assumes "valid_ref h (tags ctx)" and "valid_ref h (metricTags ctx)" and "valid_ref h t1"
    and "logContext_WithContext h ctx t1 = (h1, c1)"
    and "valid_ref h1 t2"
    and "logContext_WithContext h1 c1 t2 = (h2, c2)"
  shows "deref h2 (tags c2) =
           log_Tags_merge (log_Tags_merge (deref h (tags ctx)) (deref h t1)) (deref h1 t2)
       \<and> transaction c2 = transaction ctx
       \<and> metricTags c2 = metricTags ctx
       \<and> transaction c1 = transaction ctx
       \<and> metricTags c1 = metricTags ctx
       \<and> (\<forall>a < length h. h2 ! a = h ! a)
       \<and> view h2 ctx = view h ctx
       \<and> view h2 c1 = view h1 c1"
proof -
  from logContext_WithContext_eq [OF assms(1,3)] assms(4)
  have h1: "h1 = h @ [log_Tags_merge (deref h (tags ctx)) (deref h t1)]"
    and c1: "c1 = \<lparr>transaction = transaction ctx, tags = Some (length h),
                   metricTags = metricTags ctx\<rparr>"
    by simp_all
  have v1: "valid_ref h1 (tags c1)" by (simp add: h1 c1 valid_ref_def)
  from logContext_WithContext_eq [OF v1 assms(5)] assms(6)
  have h2: "h2 = h1 @ [log_Tags_merge (deref h1 (tags c1)) (deref h1 t2)]"
    and c2: "c2 = \<lparr>transaction = transaction c1, tags = Some (length h1),
                   metricTags = metricTags c1\<rparr>"
    by simp_all
  have d1: "deref h1 (tags c1) = log_Tags_merge (deref h (tags ctx)) (deref h t1)"
    by (simp add: h1 c1 deref_new)
  have "deref h2 (tags c2) = log_Tags_merge (deref h1 (tags c1)) (deref h1 t2)"
    by (simp add: h2 c2 deref_new)
  then have tags2: "deref h2 (tags c2) =
           log_Tags_merge (log_Tags_merge (deref h (tags ctx)) (deref h t1)) (deref h1 t2)"
    by (simp only: d1)
  have frame: "\<forall>a < length h. h2 ! a = h ! a"
    by (simp add: h2 h1 nth_append)
  have vt: "valid_ref h1 (tags ctx)" and vm: "valid_ref h1 (metricTags ctx)"
    using assms(1,2) by (simp_all add: h1 valid_ref_append)
  have parent: "view h2 ctx = view h ctx"
    using assms(1,2) vt vm by (simp add: view_def h2 deref_append) (simp add: h1 deref_append)
  have vm1: "valid_ref h1 (metricTags c1)" using vm by (simp add: c1)
  have child: "view h2 c1 = view h1 c1"
    using v1 vm1 by (simp add: view_def h2 deref_append)
  from tags2 frame parent child show ?thesis by (simp add: c1 c2)
qed

text \<open>
  An instance: from a context with empty tags, \<open>WithContext({"x": 1})\<close> and then
  \<open>WithContext({"y": 2})\<close> give the tags \<open>{"x": 1, "y": 2}\<close>, and the tags of the first
  context are still empty.
\<close>

theorem WithContext_derives_witness:
  "deref (fst (logContext_WithContext
                (fst (logContext_WithContext ex_store ex_context (Some 2)))
                (snd (logContext_WithContext ex_store ex_context (Some 2))) (Some 3)))
         (tags (snd (logContext_WithContext
                (fst (logContext_WithContext ex_store ex_context (Some 2)))
                (snd (logContext_WithContext ex_store ex_context (Some 2))) (Some 3))))
     = [(''x'', DInt 1), (''y'', DInt 2)]
   \<and> deref (fst (logContext_WithContext
                (fst (logContext_WithContext ex_store ex_context (Some 2)))
                (snd (logContext_WithContext ex_store ex_context (Some 2))) (Some 3)))
         (tags ex_context) = []"
proof -
  let ?r1 = "logContext_WithContext ex_store ex_context (Some 2)"
  let ?r2 = "logContext_WithContext (fst ?r1) (snd ?r1) (Some 3)"
  have a1: "valid_ref ex_store (tags ex_context)"
    and a2: "valid_ref ex_store (metricTags ex_context)"
    and a3: "valid_ref ex_store (Some 2)"
    by (simp_all add: valid_ref_def ex_store_def ex_context_def)
  have a4: "?r1 = (fst ?r1, snd ?r1)" by simp
  have r1: "fst ?r1 = ex_store @ [[(''x'', DInt 1)]]"
    by (simp add: logContext_WithContext_def log_Tags_merge_ref_def ex_store_def ex_context_def
          deref_def Let_def)
  have a5: "valid_ref (fst ?r1) (Some 3)"
    unfolding r1 by (simp add: valid_ref_def ex_store_def)
  have a6: "?r2 = (fst ?r2, snd ?r2)" by simp
  have d: "deref ex_store (tags ex_context) = []" "deref ex_store (Some 2) = [(''x'', DInt 1)]"
    "deref (fst ?r1) (Some 3) = [(''y'', DInt 2)]"
    unfolding r1 by (simp_all add: deref_def ex_store_def ex_context_def)
  from WithContext_derives [OF a1 a2 a3 a4 a5 a6]
  have "deref (fst ?r2) (tags (snd ?r2)) =
          log_Tags_merge (log_Tags_merge [] [(''x'', DInt 1)]) [(''y'', DInt 2)]"
    and "view (fst ?r2) ex_context = view ex_store ex_context"
    by (simp_all add: d)
  then show ?thesis
    by (simp add: log_Tags_merge_def view_def d)
qed

section \<open>Fluent adds on a shared array\<close>

text \<open>
  One add appends its record to what the list showed, adds 1 to the length and keeps
  the slice well formed. It writes into the array of the list at the index of the old
  length, when the capacity allows, and touches nothing else.
\<close>

lemma Metrics_add_in_place:
  assumes "len (Values m) < cap (Values m)"
  shows "Metrics_add grow h m x =
           (h[ptr (Values m) := (h ! ptr (Values m))[len (Values m) := x]],
            \<lparr>Values = (Values m)\<lparr>len := len (Values m) + 1\<rparr>\<rparr>)"
  using assms by (simp add: Metrics_add_def append1_def)

lemma Metrics_add_new_array:
  assumes "\<not> len (Values m) < cap (Values m)"
  shows "Metrics_add grow h m x =
           (h @ [take (len (Values m)) (h ! ptr (Values m)) @ [x]
                 @ replicate (max (len (Values m) + 1) (grow (cap (Values m)))
                               - (len (Values m) + 1)) zero_Metric],
            \<lparr>Values = \<lparr>ptr = length h, len = len (Values m) + 1,
                        cap = max (len (Values m) + 1) (grow (cap (Values m)))\<rparr>\<rparr>)"
  using assms by (simp add: Metrics_add_def append1_def Let_def)

lemma wf_slice_shown: "wf_slice h s \<Longrightarrow> length (take (len s) (h ! ptr s)) = len s"
  by (auto simp: wf_slice_def)

lemma Metrics_add_step:
  assumes "wf_slice h (Values m)" and "Metrics_add grow h m x = (h', m')"
  shows "elems h' m' = elems h m @ [x]"
    and "len (Values m') = len (Values m) + 1"
    and "wf_slice h' (Values m')"
proof -
  let ?s = "Values m"
  show "elems h' m' = elems h m @ [x]"
  proof (cases "len ?s < cap ?s")
    case True
    with assms(1) have p: "ptr ?s < length h" and l: "length (h ! ptr ?s) = cap ?s"
      by (auto simp: wf_slice_def)
    from assms(2) Metrics_add_in_place [OF True, of grow h x]
    have "h' = h[ptr ?s := (h ! ptr ?s)[len ?s := x]]"
      and "m' = \<lparr>Values = ?s\<lparr>len := len ?s + 1\<rparr>\<rparr>"
      by simp_all
    then show ?thesis
      using p l True by (simp add: elems_def take_Suc_conv_app_nth)
  next
    case False
    from assms(2) Metrics_add_new_array [OF False, of grow h x]
    have h': "h' = h @ [take (len ?s) (h ! ptr ?s) @ [x]
                 @ replicate (max (len ?s + 1) (grow (cap ?s)) - (len ?s + 1)) zero_Metric]"
      and m': "m' = \<lparr>Values = \<lparr>ptr = length h, len = len ?s + 1,
                        cap = max (len ?s + 1) (grow (cap ?s))\<rparr>\<rparr>"
      by simp_all
    have "length (take (len ?s) (h ! ptr ?s)) = len ?s"
      using assms(1) by (rule wf_slice_shown)
    then show ?thesis
      by (simp add: h' m' elems_def del: length_take)
  qed
  show "len (Values m') = len (Values m) + 1"
    using assms(2) by (auto simp: Metrics_add_def append1_def Let_def split: if_splits)
  show "wf_slice h' (Values m')"
  proof (cases "len ?s < cap ?s")
    case True
    from assms(2) Metrics_add_in_place [OF True, of grow h x] assms(1) True
    show ?thesis by (auto simp: wf_slice_def)
  next
    case False
    have "length (take (len ?s) (h ! ptr ?s)) = len ?s"
      using assms(1) by (rule wf_slice_shown)
    with assms(2) Metrics_add_new_array [OF False, of grow h x]
    show ?thesis by (auto simp: wf_slice_def simp del: length_take)
  qed
qed

lemma Metrics_add_frame:
  assumes "wf_slice h (Values m)" and "Metrics_add grow h m x = (h', m')" and "p < length h"
    and "p \<noteq> ptr (Values m) \<or> n \<le> len (Values m)"
  shows "take n (h' ! p) = take n (h ! p)" and "length h \<le> length h'"
    and "ptr (Values m') = ptr (Values m) \<or> length h \<le> ptr (Values m')"
proof -
  let ?s = "Values m"
  show "take n (h' ! p) = take n (h ! p)"
  proof (cases "len ?s < cap ?s")
    case True
    from assms(2) Metrics_add_in_place [OF True, of grow h x]
    have "h' = h[ptr ?s := (h ! ptr ?s)[len ?s := x]]" by simp
    then show ?thesis using assms(3,4) by (cases "p = ptr ?s") auto
  next
    case False
    from assms(2) Metrics_add_new_array [OF False, of grow h x]
    obtain arr where "h' = h @ [arr]" by auto
    then show ?thesis using assms(3) by (simp add: nth_append)
  qed
  show "length h \<le> length h'"
    using assms(2) by (auto simp: Metrics_add_def append1_def Let_def split: if_splits)
  show "ptr (Values m') = ptr (Values m) \<or> length h \<le> ptr (Values m')"
    using assms(2) by (auto simp: Metrics_add_def append1_def Let_def split: if_splits)
qed

lemma Metrics_adds_frame:
  assumes "wf_slice h (Values m)" and "Metrics_adds grow h m xs = (h', m')" and "p < length h"
    and "p \<noteq> ptr (Values m) \<or> n \<le> len (Values m)"
  shows "take n (h' ! p) = take n (h ! p)"
  using assms
proof (induction xs arbitrary: h m)
  case Nil
  then show ?case by simp
next
  case (Cons x xs)
  obtain h1 m1 where step: "Metrics_add grow h m x = (h1, m1)"
    by (cases "Metrics_add grow h m x")
  note s = Metrics_add_step [OF Cons.prems(1) step]
  note f = Metrics_add_frame [OF Cons.prems(1) step Cons.prems(3,4)]
  from Cons.prems(2) step have rest: "Metrics_adds grow h1 m1 xs = (h', m')" by simp
  have p1: "p < length h1" using f(2) Cons.prems(3) by simp
  have c1: "p \<noteq> ptr (Values m1) \<or> n \<le> len (Values m1)"
    using f(3) Cons.prems(3,4) s(2) by auto
  from Cons.IH [OF s(3) rest p1 c1] f(1) show ?case by simp
qed

text \<open>
  What holds of a chain of adds: the result shows the records of the base followed by
  the added records in the order of the calls, its length is the length of the base
  plus the number of adds, and the base still shows its own records.
\<close>

lemma Metrics_adds_chain:
  assumes "wf_slice h (Values m)" and "Metrics_adds grow h m xs = (h', m')"
  shows "elems h' m' = elems h m @ xs
       \<and> len (Values m') = len (Values m) + length xs
       \<and> wf_slice h' (Values m')"
  using assms
proof (induction xs arbitrary: h m)
  case Nil
  then show ?case by simp
next
  case (Cons x xs)
  obtain h1 m1 where step: "Metrics_add grow h m x = (h1, m1)"
    by (cases "Metrics_add grow h m x")
  note s = Metrics_add_step [OF Cons.prems(1) step]
  from Cons.prems(2) step have rest: "Metrics_adds grow h1 m1 xs = (h', m')" by simp
  from Cons.IH [OF s(3) rest] s(1,2) show ?case by simp
qed

lemma Metrics_adds_base_intact:
  assumes "wf_slice h (Values m)" and "Metrics_adds grow h m xs = (h', m')"
  shows "elems h' m = elems h m"
proof (cases "cap (Values m) = 0")
  case True
  with assms(1) have "len (Values m) = 0" by (simp add: wf_slice_def)
  then show ?thesis by (simp add: elems_def)
next
  case False
  with assms(1) have "ptr (Values m) < length h" by (simp add: wf_slice_def)
  from Metrics_adds_frame [OF assms this, of "len (Values m)"]
  show ?thesis by (simp add: elems_def)
qed

text \<open>
  What does not hold: two lists made from one base whose array has room left share the
  cell after the base, and the second add overwrites the record of the first.
\<close>

lemma sibling_adds_alias:
  assumes "wf_slice h (Values base)" and "len (Values base) < cap (Values base)"
    and "Metrics_add grow h base x = (h1, s1)"
    and "Metrics_add grow h1 base y = (h2, s2)"
  shows "elems h1 s1 = elems h base @ [x]" and "elems h2 s1 = elems h base @ [y]"
proof -
  let ?s = "Values base"
  from assms(1,2) have p: "ptr ?s < length h" and l: "length (h ! ptr ?s) = cap ?s"
    by (auto simp: wf_slice_def)
  from assms(3) Metrics_add_in_place [OF assms(2), of grow h x]
  have h1: "h1 = h[ptr ?s := (h ! ptr ?s)[len ?s := x]]"
    and s1: "s1 = \<lparr>Values = ?s\<lparr>len := len ?s + 1\<rparr>\<rparr>"
    by simp_all
  from assms(4) Metrics_add_in_place [OF assms(2), of grow h1 y]
  have h2: "h2 = h1[ptr ?s := (h1 ! ptr ?s)[len ?s := y]]" by simp
  show "elems h1 s1 = elems h base @ [x]"
    using p l assms(2) by (simp add: h1 s1 elems_def take_Suc_conv_app_nth)
  show "elems h2 s1 = elems h base @ [y]"
    using p l assms(2) by (simp add: h2 h1 s1 elems_def take_Suc_conv_app_nth)
qed

text \<open>
  Claim C8, evaluated on the code. The base \<open>Counter("a").Counter("b").Counter("c")\<close>
  shows \<open>a, b, c\<close>; \<open>s1 = base.Counter("x")\<close> shows \<open>a, b, c, x\<close>; after
  \<open>s2 = base.Counter("y")\<close> both \<open>s2\<close> and \<open>s1\<close> show \<open>a, b, c, y\<close>: the later add on the
  base has altered the last record of the sibling \<open>s1\<close>.
\<close>

theorem sibling_adds_share_tail:
  "map Name (elems (fst abc) (snd abc)) = [''a'', ''b'', ''c'']
   \<and> map Name (elems (fst abc_x) (snd abc_x)) = [''a'', ''b'', ''c'', ''x'']
   \<and> map Name (elems (fst abc_x_y) (snd abc_x_y)) = [''a'', ''b'', ''c'', ''y'']
   \<and> map Name (elems (fst abc_x_y) (snd abc_x)) = [''a'', ''b'', ''c'', ''y'']"
  by (simp add: abc_def abc_x_def abc_x_y_def metrics_Counter_def Metrics_Counter_def
        Metrics_add_def append1_def double_def elems_def Let_def mergeTags_def zero_Metric_def)

section \<open>The functions of the package\<close>

text \<open>
  Claim C10, evaluated on the code. The function \<open>Errorf\<close> of the package returns the
  error made from the format and one argument, the slice \<open>a\<close> itself, where the verb
  \<open>Errorf\<close> of the default context called with the arguments spread returns the error
  made from the format and the elements of \<open>a\<close>. \<open>Fatalf\<close> of the package likewise calls
  the verb with the slice as its single argument.
\<close>

theorem package_Errorf_Fatalf_pass_slice:
  "snd (log_Errorf fmt g format a) = Return (Some (fmt format [DSlice a]))
   \<and> snd (logContext_Errorf fmt g defaultContext format a) = Return (Some (fmt format a))
   \<and> log_Fatalf fmt g format a = logContext_Fatalf fmt g defaultContext format [DSlice a]"
  by (simp add: log_Errorf_def log_Fatalf_def logContext_Errorf_eval del: logContext_Errorf.simps)

end
